theory Spec2Isabelle
  imports Main "HOL-Library.Word"
begin

section \<open>Values handled by \<^verbatim>\<open>app.ts\<close>\<close>

text \<open>
  A JavaScript string is a sequence of 16-bit code units. The TypeScript type
  \<^verbatim>\<open>number\<close> is an IEEE-754 double. The program uses it for identifiers only (\<^verbatim>\<open>id\<close>,
  \<^verbatim>\<open>nextId\<close>), which are whole numbers, so a number is modelled by the \<^typ>\<open>int\<close> it denotes.
  A double holds every whole number up to \<open>2\<^sup>5\<^sup>3\<close> in absolute value; beyond that it holds
  only the even ones, from \<open>2\<^sup>5\<^sup>4\<close> on only the multiples of 4, and so on.
\<close>

type_synonym js_char = "16 word"
type_synonym js_string = "js_char list"

definition str :: "string \<Rightarrow> js_string" where
  "str s = map of_char s"

text \<open>
  The one arithmetic operation of the program is the addition of 1, in \<^verbatim>\<open>nextId++\<close> and in
  \<^verbatim>\<open>Math.max(...) + 1\<close>. It is the addition of doubles, which rounds to the nearest double
  and, half way between two, to the one with the even significand. For a whole number
  \<open>n\<close> that a double holds: while \<open>n + 1\<close> is at most \<open>2\<^sup>5\<^sup>3\<close> in absolute value the sum is
  exact; between \<open>2\<^sup>5\<^sup>3\<close> and \<open>2\<^sup>5\<^sup>4\<close> the number \<open>n\<close> is even, \<open>n + 1\<close> lies half way between
  the doubles \<open>n\<close> and \<open>n + 2\<close>, and the result is the multiple of 4 among them; from \<open>2\<^sup>5\<^sup>4\<close>
  on the result is \<open>n\<close> again. So \<^verbatim>\<open>9007199254740992 + 1\<close> is \<^verbatim>\<open>9007199254740992\<close>.
\<close>

definition add_one :: "int \<Rightarrow> int" where
  "add_one n =
     (if \<bar>n + 1\<bar> \<le> 2 ^ 53 then n + 1
      else if \<bar>n\<bar> < 2 ^ 54 \<and> n mod 4 = 2 then n + 2
      else n)"

text \<open>\<^verbatim>\<open>interface Task { id: number; text: string; completed: boolean }\<close>\<close>

record Task =
  task_id :: int
  task_text :: js_string
  completed :: bool

subsection \<open>\<^verbatim>\<open>String.prototype.trim\<close>\<close>

text \<open>
  \<^verbatim>\<open>trim\<close> removes leading and trailing code units that are WhiteSpace (TAB, VT, FF,
  ZWNBSP and the Unicode category Zs) or LineTerminator (LF, CR, LS, PS).
\<close>

definition WhiteSpace :: "js_char \<Rightarrow> bool" where
  "WhiteSpace c \<longleftrightarrow>
     c = 0x0009 \<or> c = 0x000B \<or> c = 0x000C \<or> c = 0xFEFF \<or>
     c = 0x0020 \<or> c = 0x00A0 \<or> c = 0x1680 \<or> (0x2000 \<le> c \<and> c \<le> 0x200A) \<or>
     c = 0x202F \<or> c = 0x205F \<or> c = 0x3000"

definition LineTerminator :: "js_char \<Rightarrow> bool" where
  "LineTerminator c \<longleftrightarrow> c = 0x000A \<or> c = 0x000D \<or> c = 0x2028 \<or> c = 0x2029"

definition trimmed_unit :: "js_char \<Rightarrow> bool" where
  "trimmed_unit c \<longleftrightarrow> WhiteSpace c \<or> LineTerminator c"

definition trim :: "js_string \<Rightarrow> js_string" where
  "trim s = rev (dropWhile trimmed_unit (rev (dropWhile trimmed_unit s)))"

subsection \<open>\<^verbatim>\<open>JSON.stringify\<close> on an array of tasks\<close>

text \<open>
  \<^verbatim>\<open>saveTasks\<close> calls the built-in \<^verbatim>\<open>JSON.stringify(tasks)\<close>. The definitions below follow
  ECMA-262 (SerializeJSONArray, SerializeJSONObject, QuoteJSONString, Number::toString)
  on the values the program passes: an array of objects with the properties
  \<^verbatim>\<open>id\<close>, \<^verbatim>\<open>text\<close>, \<^verbatim>\<open>completed\<close> in this order, without indentation. A number is
  written with all its decimal digits, as the built-in writes a whole number below
  \<open>10\<^sup>2\<^sup>1\<close> in absolute value; the exponent form that it uses from there on is not modelled.
\<close>

fun digits :: "nat \<Rightarrow> js_string" where
  "digits n = (if n < 10 then [0x30 + of_nat n]
               else digits (n div 10) @ [0x30 + of_nat (n mod 10)])"

declare digits.simps [simp del]

definition Number_toString :: "int \<Rightarrow> js_string" where
  "Number_toString n = (if n < 0 then 0x2D # digits (nat (- n)) else digits (nat n))"

definition hex_char :: "nat \<Rightarrow> js_char" where
  "hex_char k = (if k < 10 then 0x30 + of_nat k else 0x57 + of_nat k)"

definition UnicodeEscape :: "js_char \<Rightarrow> js_string" where
  "UnicodeEscape c =
     [0x5C, 0x75, hex_char (unat c div 4096), hex_char (unat c div 256 mod 16),
      hex_char (unat c div 16 mod 16), hex_char (unat c mod 16)]"

definition leading_surrogate :: "js_char \<Rightarrow> bool" where
  "leading_surrogate c \<longleftrightarrow> 0xD800 \<le> c \<and> c \<le> 0xDBFF"

definition trailing_surrogate :: "js_char \<Rightarrow> bool" where
  "trailing_surrogate c \<longleftrightarrow> 0xDC00 \<le> c \<and> c \<le> 0xDFFF"

text \<open>One code point that is a single code unit (a lone surrogate included).\<close>

definition QuoteUnit :: "js_char \<Rightarrow> js_string" where
  "QuoteUnit c =
     (if c = 0x08 then [0x5C, 0x62]
      else if c = 0x09 then [0x5C, 0x74]
      else if c = 0x0A then [0x5C, 0x6E]
      else if c = 0x0C then [0x5C, 0x66]
      else if c = 0x0D then [0x5C, 0x72]
      else if c = 0x22 then [0x5C, 0x22]
      else if c = 0x5C then [0x5C, 0x5C]
      else if c < 0x20 \<or> leading_surrogate c \<or> trailing_surrogate c then UnicodeEscape c
      else [c])"

text \<open>
  The string is read by code points: a leading surrogate followed by a trailing one is
  one code point and is copied as it is, every other code unit stands alone.
\<close>

fun QuoteBody :: "js_string \<Rightarrow> js_string" where
  "QuoteBody [] = []"
| "QuoteBody [c] = QuoteUnit c"
| "QuoteBody (c # d # cs) =
     (if leading_surrogate c \<and> trailing_surrogate d then c # d # QuoteBody cs
      else QuoteUnit c @ QuoteBody (d # cs))"

definition QuoteJSONString :: "js_string \<Rightarrow> js_string" where
  "QuoteJSONString s = 0x22 # QuoteBody s @ [0x22]"

definition SerializeTask :: "Task \<Rightarrow> js_string" where
  \<open>SerializeTask t =
     str ''{"id":'' @ Number_toString (task_id t) @
     str '',"text":'' @ QuoteJSONString (task_text t) @
     str '',"completed":'' @ (if completed t then str ''true'' else str ''false'') @
     str ''}''\<close>

fun SerializeElements :: "Task list \<Rightarrow> js_string" where
  "SerializeElements [] = []"
| "SerializeElements [t] = SerializeTask t"
| "SerializeElements (t # u # ts) = SerializeTask t @ 0x2C # SerializeElements (u # ts)"

definition JSON_stringify :: "Task list \<Rightarrow> js_string" where
  "JSON_stringify ts = 0x5B # SerializeElements ts @ [0x5D]"

subsection \<open>\<^verbatim>\<open>JSON.parse\<close> on the texts \<^verbatim>\<open>JSON.stringify\<close> writes\<close>

text \<open>
  \<^verbatim>\<open>loadTasks\<close> calls the built-in \<^verbatim>\<open>JSON.parse(savedTasks)\<close>. The parser below covers a
  fragment of it: the compact texts (no white space between tokens) that denote an array
  of objects with the properties \<^verbatim>\<open>id\<close>, \<^verbatim>\<open>text\<close>, \<^verbatim>\<open>completed\<close> in this order, with numbers
  without fraction and exponent, strings with all their escapes, and the literals
  \<^verbatim>\<open>true\<close> and \<^verbatim>\<open>false\<close>. These are the texts that \<^verbatim>\<open>saveTasks\<close> writes. On every other text
  the parser returns \<open>None\<close>, which says only that the text is outside the fragment: the
  built-in throws a SyntaxError on some of them and returns a value on others (the same
  tasks written with white space or with the properties in another order, or a value
  that is no array of tasks). A numeral is read as the whole number it denotes; the
  built-in rounds it to the nearest double, which is the same below \<open>2\<^sup>5\<^sup>3\<close> in absolute
  value.
\<close>

definition expect :: "js_string \<Rightarrow> js_string \<Rightarrow> js_string option" where
  "expect lit inp =
     (if take (length lit) inp = lit then Some (drop (length lit) inp) else None)"

definition is_digit :: "js_char \<Rightarrow> bool" where
  "is_digit c \<longleftrightarrow> 0x30 \<le> c \<and> c \<le> 0x39"

definition digit_val :: "js_char \<Rightarrow> nat" where
  "digit_val c = unat c - 0x30"

definition parse_digits :: "js_string \<Rightarrow> (nat \<times> js_string) option" where
  "parse_digits inp =
     (let ds = takeWhile is_digit inp in
      if ds = [] \<or> (hd ds = 0x30 \<and> 1 < length ds) then None
      else Some (foldl (\<lambda>a c. 10 * a + digit_val c) 0 ds, dropWhile is_digit inp))"

definition parse_number :: "js_string \<Rightarrow> (int \<times> js_string) option" where
  "parse_number inp =
     (case inp of
        [] \<Rightarrow> None
      | c # cs \<Rightarrow>
          if c = 0x2D then map_option (\<lambda>(n, r). (- int n, r)) (parse_digits cs)
          else map_option (\<lambda>(n, r). (int n, r)) (parse_digits inp))"

definition hex_val :: "js_char \<Rightarrow> nat option" where
  "hex_val c =
     (if 0x30 \<le> c \<and> c \<le> 0x39 then Some (unat c - 0x30)
      else if 0x61 \<le> c \<and> c \<le> 0x66 then Some (unat c - 0x57)
      else if 0x41 \<le> c \<and> c \<le> 0x46 then Some (unat c - 0x37)
      else None)"

definition hex4 :: "js_char \<Rightarrow> js_char \<Rightarrow> js_char \<Rightarrow> js_char \<Rightarrow> js_char option" where
  "hex4 a b c d =
     Option.bind (hex_val a) (\<lambda>w. Option.bind (hex_val b) (\<lambda>x.
     Option.bind (hex_val c) (\<lambda>y. Option.bind (hex_val d) (\<lambda>z.
       Some (of_nat (((w * 16 + x) * 16 + y) * 16 + z))))))"

definition simple_escape :: "js_char \<Rightarrow> js_char option" where
  "simple_escape e =
     (if e = 0x22 then Some 0x22
      else if e = 0x5C then Some 0x5C
      else if e = 0x2F then Some 0x2F
      else if e = 0x62 then Some 0x08
      else if e = 0x66 then Some 0x0C
      else if e = 0x6E then Some 0x0A
      else if e = 0x72 then Some 0x0D
      else if e = 0x74 then Some 0x09
      else None)"

text \<open>The characters of a string after its opening quote, up to the closing one.\<close>

fun parse_chars :: "js_string \<Rightarrow> (js_string \<times> js_string) option" where
  "parse_chars [] = None"
| "parse_chars (c # cs) =
     (if c = 0x22 then Some ([], cs)
      else if c = 0x5C then
        (case cs of
           [] \<Rightarrow> None
         | e # es \<Rightarrow>
             (if e = 0x75 then
                (case es of
                   h1 # h2 # h3 # h4 # r \<Rightarrow>
                     Option.bind (hex4 h1 h2 h3 h4)
                       (\<lambda>u. map_option (\<lambda>(s, r'). (u # s, r')) (parse_chars r))
                 | _ \<Rightarrow> None)
              else
                Option.bind (simple_escape e)
                  (\<lambda>u. map_option (\<lambda>(s, r'). (u # s, r')) (parse_chars es))))
      else if c < 0x20 then None
      else map_option (\<lambda>(s, r). (c # s, r)) (parse_chars cs))"

definition parse_string :: "js_string \<Rightarrow> (js_string \<times> js_string) option" where
  "parse_string inp =
     (case inp of [] \<Rightarrow> None | c # cs \<Rightarrow> if c = 0x22 then parse_chars cs else None)"

definition parse_boolean :: "js_string \<Rightarrow> (bool \<times> js_string) option" where
  "parse_boolean inp =
     (case expect (str ''true'') inp of
        Some r \<Rightarrow> Some (True, r)
      | None \<Rightarrow> map_option (\<lambda>r. (False, r)) (expect (str ''false'') inp))"

definition parse_task :: "js_string \<Rightarrow> (Task \<times> js_string) option" where
  \<open>parse_task inp =
     Option.bind (expect (str ''{"id":'') inp) (\<lambda>r1.
     Option.bind (parse_number r1) (\<lambda>(i, r2).
     Option.bind (expect (str '',"text":'') r2) (\<lambda>r3.
     Option.bind (parse_string r3) (\<lambda>(s, r4).
     Option.bind (expect (str '',"completed":'') r4) (\<lambda>r5.
     Option.bind (parse_boolean r5) (\<lambda>(b, r6).
     Option.bind (expect (str ''}'') r6) (\<lambda>r7.
       Some (\<lparr>task_id = i, task_text = s, completed = b\<rparr>, r7))))))))\<close>

text \<open>
  No parser returns a rest that is longer than its input. The parser of the elements of
  an array recurs on what \<open>parse_task\<close> leaves, and terminates for this reason.
\<close>

lemma expect_length: "expect lit inp = Some r \<Longrightarrow> length r \<le> length inp"
  by (auto simp: expect_def split: if_splits)

lemma parse_digits_length: "parse_digits inp = Some (n, r) \<Longrightarrow> length r \<le> length inp"
  by (auto simp: parse_digits_def Let_def length_dropWhile_le split: if_splits)

lemma parse_number_length: "parse_number inp = Some (n, r) \<Longrightarrow> length r \<le> length inp"
  by (auto simp: parse_number_def split: list.splits if_splits dest!: parse_digits_length)

lemma parse_chars_length: "parse_chars inp = Some (s, r) \<Longrightarrow> length r \<le> length inp"
proof (induction "length inp" arbitrary: inp s r rule: less_induct)
  case less
  note IH = less.hyps
  show ?case
  proof (cases inp)
    case Nil
    with less.prems show ?thesis by simp
  next
    case (Cons c cs)
    note inp = Cons
    show ?thesis
    proof (cases "c = 0x22")
      case True
      with less.prems inp show ?thesis by simp
    next
      case nq: False
      show ?thesis
      proof (cases "c = 0x5C")
        case False
        with nq less.prems inp obtain s' where "parse_chars cs = Some (s', r)"
          by (auto split: if_splits)
        from IH [OF _ this] inp show ?thesis by simp
      next
        case bs: True
        show ?thesis
        proof (cases cs)
          case Nil
          with bs nq less.prems inp show ?thesis by simp
        next
          case (Cons e es)
          note cs = Cons
          show ?thesis
          proof (cases "e = 0x75")
            case False
            with bs nq less.prems inp cs obtain s' where "parse_chars es = Some (s', r)"
              by (auto simp: bind_eq_Some_conv)
            from IH [OF _ this] inp cs show ?thesis by simp
          next
            case True
            with bs nq less.prems inp cs obtain h1 h2 h3 h4 r' s'
              where es: "es = h1 # h2 # h3 # h4 # r'" and "parse_chars r' = Some (s', r)"
              by (auto simp: bind_eq_Some_conv split: list.splits)
            from IH [OF _ this(2)] inp cs es show ?thesis by simp
          qed
        qed
      qed
    qed
  qed
qed


lemma parse_string_length: "parse_string inp = Some (s, r) \<Longrightarrow> length r \<le> length inp"
  by (auto simp: parse_string_def split: list.splits if_splits dest!: parse_chars_length)

lemma parse_boolean_length: "parse_boolean inp = Some (b, r) \<Longrightarrow> length r \<le> length inp"
  by (auto simp: parse_boolean_def split: option.splits dest!: expect_length)

lemma parse_task_length:
  assumes "parse_task inp = Some (t, r)"
  shows "length r \<le> length inp"
proof -
  from assms obtain r1 i r2 r3 s r4 r5 b r6 where
    1: "expect (str ''{\"id\":'') inp = Some r1" and 2: "parse_number r1 = Some (i, r2)" and
    3: "expect (str '',\"text\":'') r2 = Some r3" and 4: "parse_string r3 = Some (s, r4)" and
    5: "expect (str '',\"completed\":'') r4 = Some r5" and 6: "parse_boolean r5 = Some (b, r6)" and
    7: "expect (str ''}'') r6 = Some r"
    unfolding parse_task_def by (auto split: bind_splits)
  have "length r \<le> length r6" using 7 by (rule expect_length)
  also have "\<dots> \<le> length r5" using 6 by (rule parse_boolean_length)
  also have "\<dots> \<le> length r4" using 5 by (rule expect_length)
  also have "\<dots> \<le> length r3" using 4 by (rule parse_string_length)
  also have "\<dots> \<le> length r2" using 3 by (rule expect_length)
  also have "\<dots> \<le> length r1" using 2 by (rule parse_number_length)
  also have "\<dots> \<le> length inp" using 1 by (rule expect_length)
  finally show ?thesis .
qed

text \<open>The elements of a non-empty array, up to the closing bracket that ends the text.\<close>

function parse_elements :: "js_string \<Rightarrow> Task list option" where
  "parse_elements inp =
     (case parse_task inp of
        None \<Rightarrow> None
      | Some (t, r) \<Rightarrow>
          (case r of
             [] \<Rightarrow> None
           | c # r' \<Rightarrow>
               if c = 0x5D \<and> r' = [] then Some [t]
               else if c = 0x2C then map_option (Cons t) (parse_elements r')
               else None))"
  by pat_completeness auto
termination
proof (relation "measure length")
  show "wf (measure length)" by simp
next
  fix inp :: js_string and x2 x y x21 x22
  assume "parse_task inp = Some x2" "(x, y) = x2" "y = x21 # x22"
  then have "length (x21 # x22) \<le> length inp"
    using parse_task_length [of inp x y] by simp
  then show "(x22, inp) \<in> measure length" by simp
qed

declare parse_elements.simps [simp del]

definition JSON_parse :: "js_string \<Rightarrow> Task list option" where
  "JSON_parse inp =
     (case inp of
        [] \<Rightarrow> None
      | c # r \<Rightarrow>
          if c \<noteq> 0x5B then None
          else if r = [0x5D] then Some []
          else parse_elements r)"

section \<open>The page: global variables, DOM elements and storage\<close>

text \<open>
  One \<^verbatim>\<open><li>\<close> built by \<^verbatim>\<open>renderTasks\<close>: whether it carries the class \<^verbatim>\<open>completed\<close>, the
  state of its checkbox, the text of its span, and the identifiers that its two click
  listeners pass to \<^verbatim>\<open>toggleTask\<close> and \<^verbatim>\<open>deleteTask\<close>.
\<close>

record li =
  li_completed :: bool
  checkbox_checked :: bool
  span_text :: js_string
  checkbox_click :: int
  deleteBtn_click :: int

text \<open>What the script does to its environment, in the order in which it does it.\<close>

datatype effect =
  Alert js_string
| SetItem js_string js_string
| Render "li list"

text \<open>
  The state of the page: the global variables \<^verbatim>\<open>tasks\<close> and \<^verbatim>\<open>nextId\<close>, the value of the
  input element, the rows of the list element, the storage of the browser (a map from
  keys to values), and the effects so far.
\<close>

record page =
  tasks :: "Task list"
  nextId :: int
  taskInput_value :: js_string
  taskList :: "li list"
  localStorage :: "js_string \<rightharpoonup> js_string"
  effects :: "effect list"

text \<open>
  The stored text is outside the fragment that \<open>JSON_parse\<close> covers. There the built-in
  either throws a SyntaxError, which leaves \<^verbatim>\<open>loadTasks\<close> and ends the script, or returns a
  value with which the script goes on; the model follows the page in neither case.
\<close>

datatype error = OutsideFragment

text \<open>
  The page when the script starts, on a given storage: \<^verbatim>\<open>let tasks: Task[] = []\<close> and
  \<^verbatim>\<open>let nextId: number = 1\<close>. The document is not among the sources; its input field is
  taken to be empty and its list to have no rows.
\<close>

definition initial_page :: "(js_string \<rightharpoonup> js_string) \<Rightarrow> page" where
  "initial_page storage =
     \<lparr>tasks = [], nextId = 1, taskInput_value = [], taskList = [],
      localStorage = storage, effects = []\<rparr>"

text \<open>
  \<^verbatim>\<open>renderTasks\<close> empties the list element and builds one row for each task, in the order
  of the array.
\<close>

definition render_li :: "Task \<Rightarrow> li" where
  "render_li task =
     \<lparr>li_completed = completed task, checkbox_checked = completed task,
      span_text = task_text task, checkbox_click = task_id task,
      deleteBtn_click = task_id task\<rparr>"

definition renderTasks :: "page \<Rightarrow> page" where
  "renderTasks s =
     s\<lparr>taskList := map render_li (tasks s),
       effects := effects s @ [Render (map render_li (tasks s))]\<rparr>"

text \<open>\<^verbatim>\<open>localStorage.setItem('tasks', JSON.stringify(tasks))\<close>\<close>

definition saveTasks :: "page \<Rightarrow> page" where
  "saveTasks s =
     s\<lparr>localStorage := (localStorage s)(str ''tasks'' \<mapsto> JSON_stringify (tasks s)),
       effects := effects s @ [SetItem (str ''tasks'') (JSON_stringify (tasks s))]\<rparr>"

text \<open>\<^verbatim>\<open>Math.max(...xs)\<close>; of no argument it is \<open>-\<infinity>\<close>, which is no whole number.\<close>

fun Math_max :: "int list \<Rightarrow> int option" where
  "Math_max [] = None"
| "Math_max (x # xs) = Some (fold max xs x)"

text \<open>
  \<^verbatim>\<open>if (savedTasks)\<close> holds for a string that is neither \<^verbatim>\<open>null\<close> nor empty. Under the guard
  \<^verbatim>\<open>tasks.length > 0\<close> the maximum exists.
\<close>

definition loadTasks :: "page \<Rightarrow> error + page" where
  "loadTasks s =
     (case localStorage s (str ''tasks'') of
        None \<Rightarrow> Inr s
      | Some savedTasks \<Rightarrow>
          if savedTasks = [] then Inr s
          else
            (case JSON_parse savedTasks of
               None \<Rightarrow> Inl OutsideFragment
             | Some parsed \<Rightarrow>
                 let s1 = s\<lparr>tasks := parsed\<rparr>;
                     s2 = (if 0 < length (tasks s1)
                           then (case Math_max (map task_id (tasks s1)) of
                                   Some m \<Rightarrow> s1\<lparr>nextId := add_one m\<rparr>
                                 | None \<Rightarrow> s1)
                           else s1)
                 in Inr (renderTasks s2)))"

text \<open>
  \<^verbatim>\<open>addTask\<close> returns after the alert when the trimmed text is empty. Otherwise
  \<^verbatim>\<open>id: nextId++\<close> takes the current \<^verbatim>\<open>nextId\<close> for the new task and adds 1 to it, as doubles
  add; the task is pushed, the input field is cleared, the tasks are saved and rendered.
\<close>

definition addTask :: "page \<Rightarrow> page" where
  "addTask s =
     (let text = trim (taskInput_value s) in
      if text = [] then s\<lparr>effects := effects s @ [Alert (str ''Por favor, digite uma tarefa!'')]\<rparr>
      else
        let newTask = \<lparr>task_id = nextId s, task_text = text, completed = False\<rparr>;
            s1 = s\<lparr>nextId := add_one (nextId s)\<rparr>;
            s2 = s1\<lparr>tasks := tasks s1 @ [newTask]\<rparr>;
            s3 = s2\<lparr>taskInput_value := []\<rparr>
        in renderTasks (saveTasks s3))"

text \<open>
  \<^verbatim>\<open>tasks.find\<close> returns the first element that satisfies the predicate, here as its
  position; the assignment to \<^verbatim>\<open>task.completed\<close> changes that element of the array in place.
\<close>

fun find_first :: "('a \<Rightarrow> bool) \<Rightarrow> 'a list \<Rightarrow> nat option" where
  "find_first P [] = None"
| "find_first P (x # xs) = (if P x then Some 0 else map_option Suc (find_first P xs))"

definition toggleTask :: "int \<Rightarrow> page \<Rightarrow> page" where
  "toggleTask i s =
     (case find_first (\<lambda>t. task_id t = i) (tasks s) of
        None \<Rightarrow> s
      | Some k \<Rightarrow>
          let task = tasks s ! k;
              s1 = s\<lparr>tasks := (tasks s)[k := task\<lparr>completed := \<not> completed task\<rparr>]\<rparr>
          in renderTasks (saveTasks s1))"

text \<open>\<^verbatim>\<open>tasks = tasks.filter(t => t.id !== id)\<close>, then save and render, whatever the id.\<close>

definition deleteTask :: "int \<Rightarrow> page \<Rightarrow> page" where
  "deleteTask i s =
     renderTasks (saveTasks (s\<lparr>tasks := filter (\<lambda>t. task_id t \<noteq> i) (tasks s)\<rparr>))"

text \<open>
  The events of the page: a click on the add button (or the Enter key) with a text in the
  input field, a click on the checkbox or on the delete button of a row.
\<close>

datatype action = Add js_string | Toggle int | Delete int

fun step :: "action \<Rightarrow> page \<Rightarrow> page" where
  "step (Add input) s = addTask (s\<lparr>taskInput_value := input\<rparr>)"
| "step (Toggle i) s = toggleTask i s"
| "step (Delete i) s = deleteTask i s"

fun run :: "action list \<Rightarrow> page \<Rightarrow> page" where
  "run [] s = s"
| "run (a # as) s = run as (step a s)"

text \<open>An action is effective when it makes \<^verbatim>\<open>addTask\<close> create a task.\<close>

fun effective :: "action \<Rightarrow> bool" where
  "effective (Add input) \<longleftrightarrow> trim input \<noteq> []"
| "effective (Toggle i) \<longleftrightarrow> False"
| "effective (Delete i) \<longleftrightarrow> False"

text \<open>
  A page with three tasks, saved and rendered, and a text typed into the input field; it
  serves the examples below.
\<close>

definition example_tasks :: "Task list" where
  "example_tasks =
     [\<lparr>task_id = 1, task_text = str ''Buy milk'', completed = False\<rparr>,
      \<lparr>task_id = 2, task_text = str ''Call Ana'', completed = True\<rparr>,
      \<lparr>task_id = 3, task_text = str ''Pay rent'', completed = False\<rparr>]"

definition example_page :: page where
  "example_page =
     \<lparr>tasks = example_tasks, nextId = 4, taskInput_value = str ''Walk the dog'',
      taskList = map render_li example_tasks,
      localStorage = [str ''tasks'' \<mapsto> JSON_stringify example_tasks], effects = []\<rparr>"

text \<open>
  A page loaded from a stored task with the greatest id below \<open>2\<^sup>5\<^sup>3\<close>: \<^verbatim>\<open>loadTasks\<close> sets
  \<^verbatim>\<open>nextId\<close> to \<open>2\<^sup>5\<^sup>3\<close>.
\<close>

definition limit_tasks :: "Task list" where
  "limit_tasks = [\<lparr>task_id = 9007199254740991, task_text = str ''a'', completed = False\<rparr>]"

definition limit_storage :: "js_string \<rightharpoonup> js_string" where
  "limit_storage = [str ''tasks'' \<mapsto> JSON_stringify limit_tasks]"

definition limit_page :: page where
  "limit_page =
     renderTasks ((initial_page limit_storage)\<lparr>tasks := limit_tasks, nextId := 9007199254740992\<rparr>)"

section \<open>Reading back what was written\<close>

subsection \<open>Literals\<close>

lemma expect_append: "expect lit (lit @ r) = Some r"
  by (simp add: expect_def)

subsection \<open>Numbers\<close>

lemma below_ten:
  assumes "k < (10::nat)"
  shows "k = 0 \<or> k = 1 \<or> k = 2 \<or> k = 3 \<or> k = 4 \<or> k = 5 \<or> k = 6 \<or> k = 7 \<or> k = 8 \<or> k = 9"
  using assms by arith

lemma digit_char:
  assumes "k < 10"
  shows "is_digit (0x30 + of_nat k)" and "digit_val (0x30 + of_nat k) = k"
    and "((of_nat k :: js_char) = 0) \<longleftrightarrow> k = 0"
  using below_ten [OF assms] by (auto simp: is_digit_def digit_val_def)

lemma digits_not_Nil: "digits n \<noteq> []"
  by (subst digits.simps) simp

lemma digits_are_digits: "c \<in> set (digits n) \<Longrightarrow> is_digit c"
proof (induction n arbitrary: c rule: digits.induct)
  case (1 n)
  show ?case
  proof (cases "n < 10")
    case True
    with "1.prems" show ?thesis
      by (subst (asm) digits.simps) (simp add: digit_char)
  next
    case False
    with "1.prems" have "c \<in> set (digits (n div 10)) \<or> c = 0x30 + of_nat (n mod 10)"
      by (subst (asm) digits.simps) auto
    with "1.IH" [OF False] show ?thesis
      by (auto simp: digit_char)
  qed
qed

lemma foldl_digits:
  "foldl (\<lambda>a c. 10 * a + digit_val c) a (digits n) = a * 10 ^ length (digits n) + n"
proof (induction n arbitrary: a rule: digits.induct)
  case (1 n)
  show ?case
  proof (cases "n < 10")
    case True
    then show ?thesis
      by (subst (1 2) digits.simps) (simp add: digit_char)
  next
    case False
    have "foldl (\<lambda>a c. 10 * a + digit_val c) a (digits n) =
        10 * foldl (\<lambda>a c. 10 * a + digit_val c) a (digits (n div 10)) + n mod 10"
      using False by (subst digits.simps) (simp add: digit_char)
    also have "\<dots> = 10 * (a * 10 ^ length (digits (n div 10)) + n div 10) + n mod 10"
      by (simp only: "1.IH" [OF False])
    also have "\<dots> = a * 10 ^ length (digits n) + n"
      using False by (subst (2) digits.simps) (simp add: algebra_simps)
    finally show ?thesis .
  qed
qed

lemma hd_digits: "0 < n \<Longrightarrow> hd (digits n) \<noteq> 0x30"
proof (induction n rule: digits.induct)
  case (1 n)
  show ?case
  proof (cases "n < 10")
    case True
    with "1.prems" show ?thesis
      by (subst digits.simps) (simp add: digit_char)
  next
    case False
    then have "0 < n div 10" by simp
    with "1.IH" [OF False] have "hd (digits (n div 10)) \<noteq> 0x30" .
    with False show ?thesis
      by (subst digits.simps) (simp add: digits_not_Nil)
  qed
qed

lemma digits_no_leading_zero: "\<not> (hd (digits n) = 0x30 \<and> 1 < length (digits n))"
proof (cases "n = 0")
  case True
  then show ?thesis by (subst (2) digits.simps) simp
next
  case False
  then show ?thesis by (simp add: hd_digits)
qed

lemma takeWhile_prefix:
  assumes "\<And>c. c \<in> set xs \<Longrightarrow> P c" and "r = [] \<or> \<not> P (hd r)"
  shows "takeWhile P (xs @ r) = xs" and "dropWhile P (xs @ r) = r"
proof -
  from assms(2) have "takeWhile P r = []" and "dropWhile P r = r"
    by (cases r; auto)+
  with assms(1) show "takeWhile P (xs @ r) = xs" and "dropWhile P (xs @ r) = r"
    by (simp_all add: takeWhile_append2 dropWhile_append2)
qed

lemma parse_digits_digits:
  assumes "r = [] \<or> \<not> is_digit (hd r)"
  shows "parse_digits (digits n @ r) = Some (n, r)"
proof -
  have tw: "takeWhile is_digit (digits n @ r) = digits n"
    using digits_are_digits assms by (rule takeWhile_prefix(1))
  have dw: "dropWhile is_digit (digits n @ r) = r"
    using digits_are_digits assms by (rule takeWhile_prefix(2))
  show ?thesis
    unfolding parse_digits_def tw dw Let_def
    using digits_no_leading_zero [of n] by (simp add: digits_not_Nil foldl_digits)
qed

lemma not_digit_minus: "\<not> is_digit 0x2D"
  by (simp add: is_digit_def)

lemma parse_number_Number_toString:
  assumes "r = [] \<or> \<not> is_digit (hd r)"
  shows "parse_number (Number_toString n @ r) = Some (n, r)"
proof (cases "n < 0")
  case True
  then show ?thesis
    by (simp add: parse_number_def Number_toString_def parse_digits_digits [OF assms])
next
  case False
  obtain d ds where ds: "digits (nat n) = d # ds"
    using digits_not_Nil [of "nat n"] by (cases "digits (nat n)") auto
  then have "is_digit d" using digits_are_digits [of d "nat n"] by simp
  then have "d \<noteq> 0x2D" using not_digit_minus by auto
  moreover have "parse_digits (d # ds @ r) = Some (nat n, r)"
    using parse_digits_digits [OF assms, of "nat n"] ds by simp
  ultimately show ?thesis
    using False by (simp add: parse_number_def Number_toString_def ds)
qed

subsection \<open>Strings\<close>

lemma below_sixteen:
  assumes "k < (16::nat)"
  shows "k = 0 \<or> k = 1 \<or> k = 2 \<or> k = 3 \<or> k = 4 \<or> k = 5 \<or> k = 6 \<or> k = 7 \<or> k = 8 \<or> k = 9
         \<or> k = 10 \<or> k = 11 \<or> k = 12 \<or> k = 13 \<or> k = 14 \<or> k = 15"
  using assms by arith

lemma hex_val_hex_char:
  assumes "k < 16"
  shows "hex_val (hex_char k) = Some k"
  using below_sixteen [OF assms] by (elim disjE) (simp_all add: hex_val_def hex_char_def)

lemma hex4_UnicodeEscape:
  "hex4 (hex_char (unat c div 4096)) (hex_char (unat c div 256 mod 16))
        (hex_char (unat c div 16 mod 16)) (hex_char (unat c mod 16)) = Some c"
proof -
  have "unat c < 2 ^ 16" using unsigned_less [of c, where ?'a = nat] by simp
  then have top: "unat c div 4096 < 16" by simp
  have a: "unat c div 4096 = unat c div 256 div 16" and b: "unat c div 256 = unat c div 16 div 16"
    by (simp_all add: div_mult2_eq [symmetric])
  have "unat c div 4096 * 16 + unat c div 256 mod 16 = unat c div 256"
    unfolding a by (rule div_mult_mod_eq)
  moreover have "unat c div 256 * 16 + unat c div 16 mod 16 = unat c div 16"
    unfolding b by (rule div_mult_mod_eq)
  moreover have "unat c div 16 * 16 + unat c mod 16 = unat c"
    by (rule div_mult_mod_eq)
  ultimately have e: "((unat c div 4096 * 16 + unat c div 256 mod 16) * 16 + unat c div 16 mod 16) * 16
        + unat c mod 16 = unat c"
    by (simp only:)
  have v1: "hex_val (hex_char (unat c div 4096)) = Some (unat c div 4096)"
    using top by (rule hex_val_hex_char)
  have v2: "hex_val (hex_char (unat c div 256 mod 16)) = Some (unat c div 256 mod 16)"
    by (rule hex_val_hex_char) simp
  have v3: "hex_val (hex_char (unat c div 16 mod 16)) = Some (unat c div 16 mod 16)"
    by (rule hex_val_hex_char) simp
  have v4: "hex_val (hex_char (unat c mod 16)) = Some (unat c mod 16)"
    by (rule hex_val_hex_char) simp
  have "hex4 (hex_char (unat c div 4096)) (hex_char (unat c div 256 mod 16))
        (hex_char (unat c div 16 mod 16)) (hex_char (unat c mod 16)) = Some (of_nat (unat c))"
    unfolding hex4_def v1 v2 v3 v4 by (simp only: Option.bind.simps e)
  then show ?thesis by simp
qed

lemma surrogate_plain:
  assumes "leading_surrogate c \<or> trailing_surrogate c"
  shows "c \<noteq> 0x22" and "c \<noteq> 0x5C" and "\<not> c < 0x20"
  using assms
  by (auto simp: leading_surrogate_def trailing_surrogate_def word_le_nat_alt word_less_nat_alt)

lemma parse_chars_QuoteUnit:
  "parse_chars (QuoteUnit c @ r) = map_option (\<lambda>(s, r'). (c # s, r')) (parse_chars r)"
proof -
  consider (short) "c = 0x08 \<or> c = 0x09 \<or> c = 0x0A \<or> c = 0x0C \<or> c = 0x0D \<or> c = 0x22 \<or> c = 0x5C"
    | (escaped) "\<not> (c = 0x08 \<or> c = 0x09 \<or> c = 0x0A \<or> c = 0x0C \<or> c = 0x0D \<or> c = 0x22 \<or> c = 0x5C)"
        "c < 0x20 \<or> leading_surrogate c \<or> trailing_surrogate c"
    | (plain) "\<not> (c = 0x08 \<or> c = 0x09 \<or> c = 0x0A \<or> c = 0x0C \<or> c = 0x0D \<or> c = 0x22 \<or> c = 0x5C)"
        "\<not> (c < 0x20 \<or> leading_surrogate c \<or> trailing_surrogate c)"
    by blast
  then show ?thesis
  proof cases
    case short
    then show ?thesis
      by (auto simp: QuoteUnit_def simple_escape_def)
  next
    case escaped
    then have "QuoteUnit c = UnicodeEscape c"
      by (simp add: QuoteUnit_def)
    then show ?thesis
      by (simp add: UnicodeEscape_def hex4_UnicodeEscape)
  next
    case plain
    then have "QuoteUnit c = [c]"
      by (simp add: QuoteUnit_def)
    with plain show ?thesis by simp
  qed
qed

lemma parse_chars_QuoteBody: "parse_chars (QuoteBody s @ 0x22 # r) = Some (s, r)"
proof (induction s rule: QuoteBody.induct)
  case 1
  show ?case by simp
next
  case (2 c)
  have "parse_chars (QuoteUnit c @ 0x22 # r) = Some ([c], r)"
    by (simp only: parse_chars_QuoteUnit) simp
  then show ?case by simp
next
  case (3 c d cs)
  show ?case
  proof (cases "leading_surrogate c \<and> trailing_surrogate d")
    case True
    with "3.IH"(1) have "parse_chars (QuoteBody cs @ 0x22 # r) = Some (cs, r)" by simp
    moreover have "QuoteBody (c # d # cs) = c # d # QuoteBody cs"
      using True by simp
    moreover have "parse_chars (c # d # inp) = map_option (\<lambda>(s, r'). (c # d # s, r')) (parse_chars inp)"
      for inp
      using True surrogate_plain [of c] surrogate_plain [of d]
      by (cases "parse_chars inp") auto
    ultimately show ?thesis by (simp only: append_Cons) simp
  next
    case False
    with "3.IH"(2) have "parse_chars (QuoteBody (d # cs) @ 0x22 # r) = Some (d # cs, r)" by simp
    then have "parse_chars (QuoteUnit c @ QuoteBody (d # cs) @ 0x22 # r) = Some (c # d # cs, r)"
      by (simp only: parse_chars_QuoteUnit) simp
    moreover have "QuoteBody (c # d # cs) = QuoteUnit c @ QuoteBody (d # cs)"
      using False by auto
    ultimately show ?thesis by (simp only: append_assoc)
  qed
qed

lemma parse_string_QuoteJSONString: "parse_string (QuoteJSONString s @ r) = Some (s, r)"
  by (simp add: parse_string_def QuoteJSONString_def parse_chars_QuoteBody)

subsection \<open>Tasks and arrays of tasks\<close>

lemma parse_boolean_literal:
  "parse_boolean ((if b then str ''true'' else str ''false'') @ r) = Some (b, r)"
proof (cases b)
  case True
  then show ?thesis by (simp add: parse_boolean_def expect_append)
next
  case False
  have "expect (str ''true'') (str ''false'' @ r) = None"
    by (simp add: expect_def str_def)
  with False show ?thesis by (simp add: parse_boolean_def expect_append)
qed

lemma parse_task_SerializeTask: "parse_task (SerializeTask t @ r) = Some (t, r)"
proof -
  have number: "parse_number (Number_toString (task_id t) @ str '',\"text\":'' @ rest) =
      Some (task_id t, str '',\"text\":'' @ rest)" for rest
    by (rule parse_number_Number_toString) (simp add: str_def is_digit_def)
  have "parse_task (SerializeTask t @ r) =
      Some (\<lparr>task_id = task_id t, task_text = task_text t, completed = completed t\<rparr>, r)"
    unfolding parse_task_def SerializeTask_def
    by (simp add: expect_append number parse_string_QuoteJSONString parse_boolean_literal)
  then show ?thesis by simp
qed

lemma SerializeTask_not_Nil: "SerializeTask t \<noteq> []"
  by (simp add: SerializeTask_def str_def)

lemma SerializeElements_not_Nil: "SerializeElements (t # ts) \<noteq> []"
  by (cases ts) (simp_all add: SerializeTask_not_Nil)

lemma parse_elements_SerializeElements:
  "parse_elements (SerializeElements (t # ts) @ [0x5D]) = Some (t # ts)"
proof (induction ts arbitrary: t)
  case Nil
  show ?case
    by (subst parse_elements.simps) (simp add: parse_task_SerializeTask)
next
  case (Cons u us)
  have "parse_elements (SerializeTask t @ 0x2C # SerializeElements (u # us) @ [0x5D]) =
      map_option (Cons t) (parse_elements (SerializeElements (u # us) @ [0x5D]))"
    by (subst parse_elements.simps) (simp add: parse_task_SerializeTask)
  with Cons.IH [of u] show ?case by simp
qed

lemma JSON_parse_JSON_stringify: "JSON_parse (JSON_stringify ts) = Some ts"
proof (cases ts)
  case Nil
  then show ?thesis by (simp add: JSON_parse_def JSON_stringify_def)
next
  case (Cons t us)
  then show ?thesis
    by (simp add: JSON_parse_def JSON_stringify_def SerializeElements_not_Nil
        parse_elements_SerializeElements)
qed

subsection \<open>Loading the text that \<^verbatim>\<open>saveTasks\<close> stored\<close>

lemma JSON_stringify_not_Nil: "JSON_stringify ts \<noteq> []"
  by (simp add: JSON_stringify_def)

lemma Math_max_Cons: "Math_max (x # xs) = Some (Max (set (x # xs)))"
  by (simp only: Math_max.simps Max.set_eq_fold)

lemma loadTasks_absent:
  assumes "localStorage s (str ''tasks'') = None"
  shows "loadTasks s = Inr s"
  using assms by (simp add: loadTasks_def)

lemma loadTasks_stored:
  assumes "localStorage s (str ''tasks'') = Some (JSON_stringify S)"
  shows "loadTasks s =
     Inr (renderTasks (s\<lparr>tasks := S,
        nextId := (if S = [] then nextId s else add_one (Max (task_id ` set S)))\<rparr>))"
proof (cases S)
  case Nil
  with assms show ?thesis
    by (simp add: loadTasks_def JSON_stringify_not_Nil JSON_parse_JSON_stringify Let_def)
next
  case (Cons t ts)
  have "Math_max (map task_id S) = Some (Max (task_id ` set S))"
    unfolding Cons by (simp only: list.map Math_max_Cons) simp
  with assms Cons show ?thesis
    by (simp add: loadTasks_def JSON_stringify_not_Nil JSON_parse_JSON_stringify Let_def)
qed

lemma loadTasks_limit: "loadTasks (initial_page limit_storage) = Inr limit_page"
proof -
  have "localStorage (initial_page limit_storage) (str ''tasks'') = Some (JSON_stringify limit_tasks)"
    by (simp add: initial_page_def limit_storage_def)
  from loadTasks_stored [OF this] show ?thesis
    by (simp add: limit_page_def limit_tasks_def add_one_def)
qed

section \<open>Properties of the operations\<close>

subsection \<open>Auxiliary facts\<close>

lemma add_one_exact: "\<bar>n + 1\<bar> \<le> 2 ^ 53 \<Longrightarrow> add_one n = n + 1"
  by (simp add: add_one_def)

lemma add_one_limit: "add_one 9007199254740992 = 9007199254740992"
  by (simp add: add_one_def)

lemma find_first_None: "find_first P xs = None \<longleftrightarrow> (\<forall>x\<in>set xs. \<not> P x)"
  by (induction xs) auto

lemma find_first_Some:
  "find_first P xs = Some k \<Longrightarrow> k < length xs \<and> P (xs ! k) \<and> (\<forall>j<k. \<not> P (xs ! j))"
proof (induction xs arbitrary: k)
  case Nil
  then show ?case by simp
next
  case (Cons x xs)
  show ?case
  proof (cases "P x")
    case True
    with Cons.prems show ?thesis by simp
  next
    case False
    with Cons.prems obtain k' where k: "k = Suc k'" and "find_first P xs = Some k'"
      by auto
    with Cons.IH [of k'] False show ?thesis
      by (auto simp: less_Suc_eq_0_disj)
  qed
qed

lemma find_first_present:
  assumes "i \<in> f ` set xs"
  obtains k where "find_first (\<lambda>t. f t = i) xs = Some k" "k < length xs" "f (xs ! k) = i"
proof -
  from assms have "find_first (\<lambda>t. f t = i) xs \<noteq> None"
    by (auto simp: find_first_None)
  then obtain k where k: "find_first (\<lambda>t. f t = i) xs = Some k" by auto
  from find_first_Some [OF k] k that show thesis by blast
qed

lemma find_first_update:
  assumes "find_first (\<lambda>t. task_id t = i) xs = Some k"
  shows "find_first (\<lambda>t. task_id t = i) (xs[k := (xs ! k)\<lparr>completed := b\<rparr>]) = Some k"
  using assms
proof (induction xs arbitrary: k)
  case Nil
  then show ?case by simp
next
  case (Cons x xs)
  show ?case
  proof (cases "task_id x = i")
    case True
    with Cons.prems show ?thesis by simp
  next
    case False
    with Cons.prems obtain k' where "k = Suc k'" "find_first (\<lambda>t. task_id t = i) xs = Some k'"
      by auto
    with Cons.IH [of k'] False show ?thesis by simp
  qed
qed

lemma tasks_toggleTask:
  assumes "find_first (\<lambda>t. task_id t = i) (tasks s) = Some k"
  shows "tasks (toggleTask i s) = (tasks s)[k := (tasks s ! k)\<lparr>completed := \<not> completed (tasks s ! k)\<rparr>]"
  using assms by (simp add: toggleTask_def Let_def renderTasks_def saveTasks_def)

lemma all_dropWhile_iff: "(\<forall>x\<in>set (dropWhile P xs). P x) \<longleftrightarrow> (\<forall>x\<in>set xs. P x)"
  by (induction xs) auto

lemma trim_Nil_iff: "trim s = [] \<longleftrightarrow> (\<forall>c\<in>set s. trimmed_unit c)"
  by (simp add: trim_def dropWhile_eq_Nil_conv all_dropWhile_iff)

lemma trim_Buy_milk: "trim (str ''Buy milk'') = str ''Buy milk''"
  by (simp add: trim_def str_def trimmed_unit_def WhiteSpace_def LineTerminator_def)

lemma trim_Walk_the_dog: "trim (taskInput_value example_page) \<noteq> []"
  by (simp add: example_page_def trim_def str_def trimmed_unit_def WhiteSpace_def LineTerminator_def)

lemma JSON_stringify_Buy_milk:
  "JSON_stringify [\<lparr>task_id = 1, task_text = str ''Buy milk'', completed = False\<rparr>] =
     str ''[{\"id\":1,\"text\":\"Buy milk\",\"completed\":false}]''"
  by (simp add: JSON_stringify_def SerializeTask_def Number_toString_def digits.simps
      QuoteJSONString_def QuoteUnit_def leading_surrogate_def trailing_surrogate_def str_def)

subsection \<open>Adding a task\<close>

text \<open>
  Claim C2, as stated, fails where \<^verbatim>\<open>nextId\<close> has reached \<open>2\<^sup>5\<^sup>3\<close>, as it has on the page
  loaded from a stored task with the id 9007199254740991: the new task is appended with
  the id \<open>nextId\<close>, but \<^verbatim>\<open>nextId++\<close> leaves \<^verbatim>\<open>nextId\<close> as it is, since the sum is rounded
  back to \<open>2\<^sup>5\<^sup>3\<close>.
\<close>

theorem addTask_increment_counterexample:
  "loadTasks (initial_page limit_storage) = Inr limit_page
   \<and> trim (taskInput_value (limit_page\<lparr>taskInput_value := str ''Buy milk''\<rparr>)) \<noteq> []
   \<and> nextId (limit_page\<lparr>taskInput_value := str ''Buy milk''\<rparr>) = 9007199254740992
   \<and> nextId (addTask (limit_page\<lparr>taskInput_value := str ''Buy milk''\<rparr>)) = 9007199254740992
   \<and> nextId (addTask (limit_page\<lparr>taskInput_value := str ''Buy milk''\<rparr>)) \<noteq>
       nextId (limit_page\<lparr>taskInput_value := str ''Buy milk''\<rparr>) + 1"
proof -
  have "str ''Buy milk'' \<noteq> []" by (simp add: str_def)
  then have "trim (taskInput_value (limit_page\<lparr>taskInput_value := str ''Buy milk''\<rparr>)) \<noteq> []
   \<and> nextId (limit_page\<lparr>taskInput_value := str ''Buy milk''\<rparr>) = 9007199254740992
   \<and> nextId (addTask (limit_page\<lparr>taskInput_value := str ''Buy milk''\<rparr>)) = 9007199254740992
   \<and> nextId (addTask (limit_page\<lparr>taskInput_value := str ''Buy milk''\<rparr>)) \<noteq>
       nextId (limit_page\<lparr>taskInput_value := str ''Buy milk''\<rparr>) + 1"
    by (simp add: addTask_def Let_def renderTasks_def saveTasks_def limit_page_def
        trim_Buy_milk add_one_limit)
  with loadTasks_limit show ?thesis by (simp only: simp_thms)
qed

text \<open>
  Claim C2, amended. Whenever the text of the input field is not empty after trimming,
  \<^verbatim>\<open>addTask\<close> appends exactly one item to the end of the sequence, with \<open>id = nextId\<close>, the
  trimmed text and \<open>completed = false\<close>; and it increases \<open>nextId\<close> by one when \<open>nextId\<close> is
  below \<open>2\<^sup>5\<^sup>3\<close> in absolute value. From the empty store, adding \<^verbatim>\<open>"Buy milk"\<close> gives the
  single item with id 1 (the witness below).
\<close>

theorem addTask_appends:
  assumes "trim (taskInput_value s) \<noteq> []"
  shows "tasks (addTask s) =
           tasks s @ [\<lparr>task_id = nextId s, task_text = trim (taskInput_value s), completed = False\<rparr>]
         \<and> (\<bar>nextId s\<bar> < 2 ^ 53 \<longrightarrow> nextId (addTask s) = nextId s + 1)"
  using assms by (simp add: addTask_def Let_def renderTasks_def saveTasks_def add_one_exact)

theorem addTask_appends_witness:
  "trim (taskInput_value ((initial_page Map.empty)\<lparr>taskInput_value := str ''Buy milk''\<rparr>)) \<noteq> []
   \<and> tasks (addTask ((initial_page Map.empty)\<lparr>taskInput_value := str ''Buy milk''\<rparr>)) =
       [\<lparr>task_id = 1, task_text = str ''Buy milk'', completed = False\<rparr>]
   \<and> nextId (addTask ((initial_page Map.empty)\<lparr>taskInput_value := str ''Buy milk''\<rparr>)) = 2
   \<and> localStorage (addTask ((initial_page Map.empty)\<lparr>taskInput_value := str ''Buy milk''\<rparr>))
         (str ''tasks'') =
       Some (str ''[{\"id\":1,\"text\":\"Buy milk\",\"completed\":false}]'')"
proof -
  let ?s = "(initial_page Map.empty)\<lparr>taskInput_value := str ''Buy milk''\<rparr>"
  have h: "trim (taskInput_value ?s) \<noteq> []"
    by (simp add: trim_Buy_milk) (simp add: str_def)
  have b: "\<bar>nextId ?s\<bar> < 2 ^ 53" by (simp add: initial_page_def)
  from addTask_appends [OF h] b have t: "tasks (addTask ?s) =
      [\<lparr>task_id = 1, task_text = str ''Buy milk'', completed = False\<rparr>]"
    and n: "nextId (addTask ?s) = 2"
    by (simp_all add: trim_Buy_milk initial_page_def)
  have "localStorage (addTask ?s) (str ''tasks'') = Some (JSON_stringify (tasks (addTask ?s)))"
    using h by (simp add: addTask_def Let_def renderTasks_def saveTasks_def)
  with t have "localStorage (addTask ?s) (str ''tasks'') =
      Some (str ''[{\"id\":1,\"text\":\"Buy milk\",\"completed\":false}]'')"
    by (simp only: JSON_stringify_Buy_milk)
  with h t n show ?thesis by blast
qed

text \<open>
  Claim C3. When the input is empty or consists of white space only, it is empty after
  trimming, and \<^verbatim>\<open>addTask\<close> does nothing but raise the alert: the sequence, its length,
  \<open>nextId\<close> and the storage are what they were.
\<close>

theorem addTask_blank_rejected:
  assumes "\<forall>c\<in>set (taskInput_value s). trimmed_unit c"
  shows "trim (taskInput_value s) = []
         \<and> addTask s = s\<lparr>effects := effects s @ [Alert (str ''Por favor, digite uma tarefa!'')]\<rparr>
         \<and> tasks (addTask s) = tasks s
         \<and> length (tasks (addTask s)) = length (tasks s)
         \<and> nextId (addTask s) = nextId s
         \<and> localStorage (addTask s) = localStorage s"
proof -
  from assms have "trim (taskInput_value s) = []" by (simp add: trim_Nil_iff)
  then show ?thesis by (simp add: addTask_def)
qed

theorem addTask_blank_rejected_witness:
  "trim (taskInput_value (initial_page Map.empty)) = []
   \<and> trim (taskInput_value ((initial_page Map.empty)\<lparr>taskInput_value := str ''   ''\<rparr>)) = []
   \<and> effects (addTask (initial_page Map.empty)) = [Alert (str ''Por favor, digite uma tarefa!'')]
   \<and> tasks (addTask ((initial_page Map.empty)\<lparr>taskInput_value := str ''   ''\<rparr>)) = []
   \<and> effects (addTask ((initial_page Map.empty)\<lparr>taskInput_value := str ''   ''\<rparr>)) =
       [Alert (str ''Por favor, digite uma tarefa!'')]"
proof -
  have h1: "\<forall>c\<in>set (taskInput_value (initial_page Map.empty)). trimmed_unit c"
    by (simp add: initial_page_def)
  have h2: "\<forall>c\<in>set (taskInput_value ((initial_page Map.empty)\<lparr>taskInput_value := str ''   ''\<rparr>)). trimmed_unit c"
    by (simp add: str_def trimmed_unit_def WhiteSpace_def)
  from addTask_blank_rejected [OF h1] addTask_blank_rejected [OF h2] show ?thesis
    by (simp add: initial_page_def)
qed

subsection \<open>What \<^verbatim>\<open>toggleTask\<close> and \<^verbatim>\<open>deleteTask\<close> leave alone\<close>

lemma tasks_deleteTask: "tasks (deleteTask i s) = filter (\<lambda>t. task_id t \<noteq> i) (tasks s)"
  by (simp add: deleteTask_def renderTasks_def saveTasks_def)

lemma toggleTask_absent:
  assumes "i \<notin> task_id ` set (tasks s)"
  shows "toggleTask i s = s"
proof -
  from assms have "find_first (\<lambda>t. task_id t = i) (tasks s) = None"
    by (auto simp: find_first_None)
  then show ?thesis by (simp add: toggleTask_def)
qed

lemma toggleTask_present:
  assumes "find_first (\<lambda>t. task_id t = i) (tasks s) = Some k"
  shows "toggleTask i s =
           renderTasks (saveTasks (s\<lparr>tasks := (tasks s)[k := (tasks s ! k)\<lparr>completed := \<not> completed (tasks s ! k)\<rparr>]\<rparr>))"
  using assms by (simp add: toggleTask_def Let_def)

lemma nextId_toggleTask: "nextId (toggleTask i s) = nextId s"
  by (simp add: toggleTask_def Let_def renderTasks_def saveTasks_def split: option.splits)

lemma nextId_deleteTask: "nextId (deleteTask i s) = nextId s"
  by (simp add: deleteTask_def renderTasks_def saveTasks_def)

lemma find_first_toggleTask:
  assumes "find_first (\<lambda>t. task_id t = i) (tasks s) = Some k"
  shows "find_first (\<lambda>t. task_id t = i) (tasks (toggleTask i s)) = Some k"
  using assms by (simp add: tasks_toggleTask find_first_update)

subsection \<open>Toggling a task\<close>

text \<open>
  Claim C5. For an id that is present, toggling twice gives back the sequence and
  \<open>nextId\<close> as they were: the item found (the first with that id) has its \<open>completed\<close> flag
  negated by the first call and restored by the second.
\<close>

theorem toggleTask_involution:
  assumes "i \<in> task_id ` set (tasks s)"
  shows "tasks (toggleTask i (toggleTask i s)) = tasks s
         \<and> nextId (toggleTask i (toggleTask i s)) = nextId s
         \<and> (\<exists>k. find_first (\<lambda>t. task_id t = i) (tasks s) = Some k
                \<and> k < length (tasks s) \<and> task_id (tasks s ! k) = i
                \<and> completed (tasks (toggleTask i s) ! k) = (\<not> completed (tasks s ! k))
                \<and> completed (tasks (toggleTask i (toggleTask i s)) ! k) = completed (tasks s ! k))"
proof -
  from assms obtain k where k: "find_first (\<lambda>t. task_id t = i) (tasks s) = Some k"
    and len: "k < length (tasks s)" and idk: "task_id (tasks s ! k) = i"
    by (rule find_first_present)
  have once: "tasks (toggleTask i s) =
      (tasks s)[k := (tasks s ! k)\<lparr>completed := \<not> completed (tasks s ! k)\<rparr>]"
    using k by (rule tasks_toggleTask)
  have k': "find_first (\<lambda>t. task_id t = i) (tasks (toggleTask i s)) = Some k"
    using k by (rule find_first_toggleTask)
  have twice: "tasks (toggleTask i (toggleTask i s)) = tasks s"
    using len by (simp add: tasks_toggleTask [OF k'] once list_update_same_conv)
  have flag: "completed (tasks (toggleTask i s) ! k) = (\<not> completed (tasks s ! k))"
    using len by (simp add: once)
  from twice flag k len idk show ?thesis by (simp add: nextId_toggleTask)
qed

theorem toggleTask_involution_witness:
  "completed (tasks (toggleTask 1 example_page) ! 0) = True
   \<and> completed (tasks (toggleTask 1 (toggleTask 1 example_page)) ! 0) = False
   \<and> tasks (toggleTask 1 (toggleTask 1 example_page)) = tasks example_page"
proof -
  have h: "1 \<in> task_id ` set (tasks example_page)" by (simp add: example_page_def example_tasks_def)
  have "tasks (toggleTask 1 example_page) ! 0 =
      \<lparr>task_id = 1, task_text = str ''Buy milk'', completed = True\<rparr>"
    by (simp add: tasks_toggleTask example_page_def example_tasks_def)
  with toggleTask_involution [OF h] show ?thesis by (simp add: example_page_def example_tasks_def)
qed

text \<open>
  Claim C9. For an id that is present, \<^verbatim>\<open>toggleTask\<close> changes the \<open>completed\<close> flag of the item
  found and nothing else: that item keeps its id and text, every other item is the same,
  the sequence keeps its length and order, and \<open>nextId\<close> is unchanged.
\<close>

theorem toggleTask_frame:
  assumes "i \<in> task_id ` set (tasks s)"
  shows "\<exists>k<length (tasks s).
           task_id (tasks s ! k) = i
           \<and> tasks (toggleTask i s) =
               (tasks s)[k := (tasks s ! k)\<lparr>completed := \<not> completed (tasks s ! k)\<rparr>]
           \<and> task_id (tasks (toggleTask i s) ! k) = task_id (tasks s ! k)
           \<and> task_text (tasks (toggleTask i s) ! k) = task_text (tasks s ! k)
           \<and> completed (tasks (toggleTask i s) ! k) = (\<not> completed (tasks s ! k))
           \<and> (\<forall>j<length (tasks s). j \<noteq> k \<longrightarrow> tasks (toggleTask i s) ! j = tasks s ! j)
           \<and> length (tasks (toggleTask i s)) = length (tasks s)
           \<and> map task_id (tasks (toggleTask i s)) = map task_id (tasks s)
           \<and> map task_text (tasks (toggleTask i s)) = map task_text (tasks s)
           \<and> nextId (toggleTask i s) = nextId s"
proof -
  from assms obtain k where k: "find_first (\<lambda>t. task_id t = i) (tasks s) = Some k"
    and len: "k < length (tasks s)" and idk: "task_id (tasks s ! k) = i"
    by (rule find_first_present)
  have once: "tasks (toggleTask i s) =
      (tasks s)[k := (tasks s ! k)\<lparr>completed := \<not> completed (tasks s ! k)\<rparr>]"
    using k by (rule tasks_toggleTask)
  have ids: "map task_id (tasks (toggleTask i s)) = map task_id (tasks s)"
    unfolding once by (simp add: map_update list_update_same_conv len)
  have texts: "map task_text (tasks (toggleTask i s)) = map task_text (tasks s)"
    unfolding once by (simp add: map_update list_update_same_conv len)
  have others: "\<forall>j<length (tasks s). j \<noteq> k \<longrightarrow> tasks (toggleTask i s) ! j = tasks s ! j"
    unfolding once by simp
  have here: "tasks (toggleTask i s) ! k = (tasks s ! k)\<lparr>completed := \<not> completed (tasks s ! k)\<rparr>"
    unfolding once using len by simp
  show ?thesis
  proof (intro exI [of _ k] conjI)
    show "k < length (tasks s)" by (fact len)
    show "task_id (tasks s ! k) = i" by (fact idk)
    show "tasks (toggleTask i s) =
      (tasks s)[k := (tasks s ! k)\<lparr>completed := \<not> completed (tasks s ! k)\<rparr>]" by (fact once)
    show "task_id (tasks (toggleTask i s) ! k) = task_id (tasks s ! k)" by (simp add: here)
    show "task_text (tasks (toggleTask i s) ! k) = task_text (tasks s ! k)" by (simp add: here)
    show "completed (tasks (toggleTask i s) ! k) = (\<not> completed (tasks s ! k))" by (simp add: here)
    show "\<forall>j<length (tasks s). j \<noteq> k \<longrightarrow> tasks (toggleTask i s) ! j = tasks s ! j" by (fact others)
    show "length (tasks (toggleTask i s)) = length (tasks s)" by (simp add: once)
    show "map task_id (tasks (toggleTask i s)) = map task_id (tasks s)" by (fact ids)
    show "map task_text (tasks (toggleTask i s)) = map task_text (tasks s)" by (fact texts)
    show "nextId (toggleTask i s) = nextId s" by (fact nextId_toggleTask)
  qed
qed

theorem toggleTask_frame_witness:
  "tasks (toggleTask 2 example_page) =
     [\<lparr>task_id = 1, task_text = str ''Buy milk'', completed = False\<rparr>,
      \<lparr>task_id = 2, task_text = str ''Call Ana'', completed = False\<rparr>,
      \<lparr>task_id = 3, task_text = str ''Pay rent'', completed = False\<rparr>]
   \<and> nextId (toggleTask 2 example_page) = 4"
proof -
  have h: "2 \<in> task_id ` set (tasks example_page)" by (simp add: example_page_def example_tasks_def)
  from toggleTask_frame [OF h] obtain k where "k < length (tasks example_page)"
    and "task_id (tasks example_page ! k) = 2"
    and t: "tasks (toggleTask 2 example_page) =
       (tasks example_page)[k := (tasks example_page ! k)\<lparr>completed := \<not> completed (tasks example_page ! k)\<rparr>]"
    and n: "nextId (toggleTask 2 example_page) = nextId example_page"
    by blast
  then have "k = 1"
    by (auto simp: example_page_def example_tasks_def less_Suc_eq numeral_3_eq_3)
  with t n show ?thesis by (simp add: example_page_def example_tasks_def)
qed

subsection \<open>Deleting a task\<close>

text \<open>
  Claim C6. Deleting the same id a second time changes neither the sequence nor the
  stored text nor the rendered list; \<^verbatim>\<open>deleteTask\<close> leaves \<open>nextId\<close> alone; and from ids
  1, 2, 3 the deletion of 2 leaves 1, 3 in this order.
\<close>

theorem deleteTask_idempotent:
  "tasks (deleteTask i (deleteTask i s)) = tasks (deleteTask i s)
   \<and> localStorage (deleteTask i (deleteTask i s)) = localStorage (deleteTask i s)
   \<and> taskList (deleteTask i (deleteTask i s)) = taskList (deleteTask i s)
   \<and> nextId (deleteTask i (deleteTask i s)) = nextId (deleteTask i s)
   \<and> nextId (deleteTask i s) = nextId s
   \<and> map task_id (tasks (deleteTask i s)) = filter (\<lambda>j. j \<noteq> i) (map task_id (tasks s))
   \<and> (map task_id (tasks s) = [1, 2, 3] \<longrightarrow> map task_id (tasks (deleteTask 2 s)) = [1, 3])"
proof -
  have twice: "tasks (deleteTask i (deleteTask i s)) = tasks (deleteTask i s)"
    by (simp add: tasks_deleteTask)
  have store: "localStorage (deleteTask i (deleteTask i s)) = localStorage (deleteTask i s)"
    by (simp add: deleteTask_def renderTasks_def saveTasks_def)
  have rows: "taskList (deleteTask i (deleteTask i s)) = taskList (deleteTask i s)"
    by (simp add: deleteTask_def renderTasks_def saveTasks_def)
  have ids: "map task_id (tasks (deleteTask j s)) = filter (\<lambda>k. k \<noteq> j) (map task_id (tasks s))" for j
    by (simp add: tasks_deleteTask filter_map comp_def)
  have scenario: "map task_id (tasks s) = [1, 2, 3] \<longrightarrow> map task_id (tasks (deleteTask 2 s)) = [1, 3]"
    by (simp add: ids)
  from twice store rows ids scenario show ?thesis
    by (simp add: nextId_deleteTask)
qed

theorem deleteTask_idempotent_witness:
  "map task_id (tasks example_page) = [1, 2, 3]
   \<and> map task_id (tasks (deleteTask 2 example_page)) = [1, 3]
   \<and> tasks (deleteTask 2 (deleteTask 2 example_page)) =
       [\<lparr>task_id = 1, task_text = str ''Buy milk'', completed = False\<rparr>,
        \<lparr>task_id = 3, task_text = str ''Pay rent'', completed = False\<rparr>]
   \<and> nextId (deleteTask 2 example_page) = 4"
proof -
  have h: "map task_id (tasks example_page) = [1, 2, 3]" by (simp add: example_page_def example_tasks_def)
  have t: "tasks (deleteTask 2 example_page) =
       [\<lparr>task_id = 1, task_text = str ''Buy milk'', completed = False\<rparr>,
        \<lparr>task_id = 3, task_text = str ''Pay rent'', completed = False\<rparr>]"
    by (simp add: tasks_deleteTask example_page_def example_tasks_def)
  from deleteTask_idempotent [of 2 example_page] h t show ?thesis
    by (simp add: example_page_def example_tasks_def)
qed

subsection \<open>Storage and rendering after a mutation\<close>

lemma addTask_effective:
  assumes "trim (taskInput_value s) \<noteq> []"
  shows "addTask s =
     renderTasks (saveTasks (s\<lparr>nextId := add_one (nextId s),
        tasks := tasks s @ [\<lparr>task_id = nextId s, task_text = trim (taskInput_value s), completed = False\<rparr>],
        taskInput_value := []\<rparr>))"
  using assms by (simp add: addTask_def Let_def)

lemma localStorage_renderTasks_saveTasks:
  "localStorage (renderTasks (saveTasks s)) (str ''tasks'') = Some (JSON_stringify (tasks s))"
  by (simp add: renderTasks_def saveTasks_def)

lemma tasks_renderTasks_saveTasks: "tasks (renderTasks (saveTasks s)) = tasks s"
  by (simp add: renderTasks_def saveTasks_def)

lemma effects_renderTasks_saveTasks:
  "effects (renderTasks (saveTasks s)) =
     effects s @ [SetItem (str ''tasks'') (JSON_stringify (tasks s)), Render (map render_li (tasks s))]"
  by (simp add: renderTasks_def saveTasks_def)

lemma taskList_renderTasks_saveTasks:
  "taskList (renderTasks (saveTasks s)) = map render_li (tasks s)"
  by (simp add: renderTasks_def saveTasks_def)

text \<open>
  Claim C1, as stated, fails for \<^verbatim>\<open>toggleTask\<close> with an id that is not in the sequence: the
  call returns without saving, so on a fresh page, where nothing is stored yet, the slot
  stays absent while the serialization of the empty sequence is \<^verbatim>\<open>[]\<close>.
\<close>

theorem persisted_after_toggle_counterexample:
  "localStorage (toggleTask 1 (initial_page Map.empty)) (str ''tasks'') \<noteq>
     Some (JSON_stringify (tasks (toggleTask 1 (initial_page Map.empty))))"
  by (simp add: toggleTask_def initial_page_def)

text \<open>
  Claim C1, amended. After \<^verbatim>\<open>addTask\<close> with a text that is not empty after trimming, after
  \<^verbatim>\<open>toggleTask\<close> with an id that is present in the sequence, and after \<^verbatim>\<open>deleteTask\<close>, the value
  stored under the key \<^verbatim>\<open>tasks\<close> is the serialization of the sequence in memory.
\<close>

theorem persisted_after_mutation:
  "(trim (taskInput_value s) \<noteq> [] \<longrightarrow>
      localStorage (addTask s) (str ''tasks'') = Some (JSON_stringify (tasks (addTask s))))
   \<and> (i \<in> task_id ` set (tasks s) \<longrightarrow>
      localStorage (toggleTask i s) (str ''tasks'') = Some (JSON_stringify (tasks (toggleTask i s))))
   \<and> localStorage (deleteTask i s) (str ''tasks'') = Some (JSON_stringify (tasks (deleteTask i s)))"
proof (intro conjI impI)
  assume a: "trim (taskInput_value s) \<noteq> []"
  show "localStorage (addTask s) (str ''tasks'') = Some (JSON_stringify (tasks (addTask s)))"
    by (simp only: addTask_effective [OF a] localStorage_renderTasks_saveTasks
        tasks_renderTasks_saveTasks)
next
  assume "i \<in> task_id ` set (tasks s)"
  then obtain k where k: "find_first (\<lambda>t. task_id t = i) (tasks s) = Some k"
    by (rule find_first_present)
  show "localStorage (toggleTask i s) (str ''tasks'') = Some (JSON_stringify (tasks (toggleTask i s)))"
    by (simp only: toggleTask_present [OF k] localStorage_renderTasks_saveTasks
        tasks_renderTasks_saveTasks)
next
  show "localStorage (deleteTask i s) (str ''tasks'') = Some (JSON_stringify (tasks (deleteTask i s)))"
    by (simp only: deleteTask_def localStorage_renderTasks_saveTasks tasks_renderTasks_saveTasks)
qed

theorem persisted_after_mutation_witness:
  "localStorage (addTask example_page) (str ''tasks'') =
     Some (JSON_stringify (tasks example_page @
       [\<lparr>task_id = 4, task_text = str ''Walk the dog'', completed = False\<rparr>]))
   \<and> localStorage (toggleTask 3 example_page) (str ''tasks'') =
     Some (JSON_stringify (tasks (toggleTask 3 example_page)))
   \<and> localStorage (deleteTask 3 example_page) (str ''tasks'') =
     Some (JSON_stringify (tasks (deleteTask 3 example_page)))"
proof -
  have h1: "trim (taskInput_value example_page) \<noteq> []" by (fact trim_Walk_the_dog)
  have h2: "3 \<in> task_id ` set (tasks example_page)" by (simp add: example_page_def example_tasks_def)
  have t: "tasks (addTask example_page) = tasks example_page @
       [\<lparr>task_id = 4, task_text = str ''Walk the dog'', completed = False\<rparr>]"
    by (simp add: addTask_effective [OF h1] tasks_renderTasks_saveTasks)
      (simp add: example_page_def trim_def str_def trimmed_unit_def WhiteSpace_def LineTerminator_def)
  from persisted_after_mutation [of example_page 3] h1 h2 t show ?thesis by simp
qed

text \<open>
  Claim C8, as stated, fails: \<^verbatim>\<open>addTask\<close> with an empty input only raises the alert, and
  \<^verbatim>\<open>toggleTask\<close> with an id that is not in the sequence does nothing; neither saves nor
  renders.
\<close>

theorem pipeline_skipped_counterexample:
  "effects (addTask (initial_page Map.empty)) = [Alert (str ''Por favor, digite uma tarefa!'')]
   \<and> effects (toggleTask 1 (initial_page Map.empty)) = []"
  by (simp add: addTask_def toggleTask_def initial_page_def trim_def)

text \<open>
  Claim C8, amended. \<^verbatim>\<open>addTask\<close> with a text that is not empty after trimming, \<^verbatim>\<open>toggleTask\<close>
  with an id that is present, and every \<^verbatim>\<open>deleteTask\<close> change the store, then write the
  serialization of the changed sequence to the storage, then render the changed sequence,
  in this order and with nothing else. \<^verbatim>\<open>addTask\<close> with a blank text only raises the
  alert, and \<^verbatim>\<open>toggleTask\<close> with an absent id does nothing at all.
\<close>

theorem mutate_save_render:
  "(trim (taskInput_value s) \<noteq> [] \<longrightarrow>
      effects (addTask s) = effects s @
        [SetItem (str ''tasks'') (JSON_stringify (tasks (addTask s))),
         Render (map render_li (tasks (addTask s)))]
      \<and> tasks (addTask s) \<noteq> tasks s
      \<and> taskList (addTask s) = map render_li (tasks (addTask s)))
   \<and> (i \<in> task_id ` set (tasks s) \<longrightarrow>
      effects (toggleTask i s) = effects s @
        [SetItem (str ''tasks'') (JSON_stringify (tasks (toggleTask i s))),
         Render (map render_li (tasks (toggleTask i s)))]
      \<and> tasks (toggleTask i s) \<noteq> tasks s
      \<and> taskList (toggleTask i s) = map render_li (tasks (toggleTask i s)))
   \<and> effects (deleteTask i s) = effects s @
        [SetItem (str ''tasks'') (JSON_stringify (tasks (deleteTask i s))),
         Render (map render_li (tasks (deleteTask i s)))]
   \<and> tasks (deleteTask i s) = filter (\<lambda>t. task_id t \<noteq> i) (tasks s)
   \<and> taskList (deleteTask i s) = map render_li (tasks (deleteTask i s))
   \<and> (trim (taskInput_value s) = [] \<longrightarrow>
      effects (addTask s) = effects s @ [Alert (str ''Por favor, digite uma tarefa!'')])
   \<and> (i \<notin> task_id ` set (tasks s) \<longrightarrow> toggleTask i s = s)"
proof -
  have add: "effects (addTask s) = effects s @
        [SetItem (str ''tasks'') (JSON_stringify (tasks (addTask s))),
         Render (map render_li (tasks (addTask s)))]
      \<and> tasks (addTask s) \<noteq> tasks s
      \<and> taskList (addTask s) = map render_li (tasks (addTask s))"
    if "trim (taskInput_value s) \<noteq> []"
    by (simp add: addTask_effective [OF that] effects_renderTasks_saveTasks
        tasks_renderTasks_saveTasks taskList_renderTasks_saveTasks)
  have toggle: "effects (toggleTask i s) = effects s @
        [SetItem (str ''tasks'') (JSON_stringify (tasks (toggleTask i s))),
         Render (map render_li (tasks (toggleTask i s)))]
      \<and> tasks (toggleTask i s) \<noteq> tasks s
      \<and> taskList (toggleTask i s) = map render_li (tasks (toggleTask i s))"
    if "i \<in> task_id ` set (tasks s)"
  proof -
    from that obtain k where k: "find_first (\<lambda>t. task_id t = i) (tasks s) = Some k"
      and len: "k < length (tasks s)"
      by (rule find_first_present)
    have "tasks (toggleTask i s) ! k \<noteq> tasks s ! k"
      using len by (simp add: tasks_toggleTask [OF k]) (metis Task.select_convs(3) Task.surjective Task.update_convs(3))
    then have "tasks (toggleTask i s) \<noteq> tasks s" by metis
    then show ?thesis
      by (simp add: toggleTask_present [OF k] effects_renderTasks_saveTasks
          tasks_renderTasks_saveTasks taskList_renderTasks_saveTasks)
  qed
  have delete: "effects (deleteTask i s) = effects s @
        [SetItem (str ''tasks'') (JSON_stringify (tasks (deleteTask i s))),
         Render (map render_li (tasks (deleteTask i s)))]
      \<and> taskList (deleteTask i s) = map render_li (tasks (deleteTask i s))"
    by (simp add: deleteTask_def effects_renderTasks_saveTasks
        tasks_renderTasks_saveTasks taskList_renderTasks_saveTasks)
  have blank: "effects (addTask s) = effects s @ [Alert (str ''Por favor, digite uma tarefa!'')]"
    if "trim (taskInput_value s) = []"
    using that by (simp add: addTask_def)
  from add toggle delete blank toggleTask_absent [of i s] tasks_deleteTask [of i s]
  show ?thesis by blast
qed

theorem mutate_save_render_witness:
  "effects (addTask example_page) =
     [SetItem (str ''tasks'') (JSON_stringify (tasks (addTask example_page))),
      Render (map render_li (tasks (addTask example_page)))]
   \<and> effects (toggleTask 2 example_page) =
     [SetItem (str ''tasks'') (JSON_stringify (tasks (toggleTask 2 example_page))),
      Render (map render_li (tasks (toggleTask 2 example_page)))]
   \<and> effects (deleteTask 2 example_page) =
     [SetItem (str ''tasks'') (JSON_stringify (tasks (deleteTask 2 example_page))),
      Render (map render_li (tasks (deleteTask 2 example_page)))]
   \<and> toggleTask 9 example_page = example_page"
proof -
  have h1: "trim (taskInput_value example_page) \<noteq> []" by (fact trim_Walk_the_dog)
  have h2: "2 \<in> task_id ` set (tasks example_page)" by (simp add: example_page_def example_tasks_def)
  have h3: "9 \<notin> task_id ` set (tasks example_page)" by (simp add: example_page_def example_tasks_def)
  have e: "effects example_page = []" by (simp add: example_page_def example_tasks_def)
  from mutate_save_render [of example_page 2] h1 h2 e
  have a: "effects (addTask example_page) =
     [SetItem (str ''tasks'') (JSON_stringify (tasks (addTask example_page))),
      Render (map render_li (tasks (addTask example_page)))]
   \<and> effects (toggleTask 2 example_page) =
     [SetItem (str ''tasks'') (JSON_stringify (tasks (toggleTask 2 example_page))),
      Render (map render_li (tasks (toggleTask 2 example_page)))]
   \<and> effects (deleteTask 2 example_page) =
     [SetItem (str ''tasks'') (JSON_stringify (tasks (deleteTask 2 example_page))),
      Render (map render_li (tasks (deleteTask 2 example_page)))]"
    by simp
  from mutate_save_render [of example_page 9] h3
  have "toggleTask 9 example_page = example_page" by blast
  with a show ?thesis by blast
qed

section \<open>Loading what was saved\<close>

text \<open>
  Claim C7. Parsing the text that \<^verbatim>\<open>JSON.stringify\<close> writes for a sequence of tasks gives
  that sequence back; so a page that starts on the storage left by \<^verbatim>\<open>saveTasks\<close> loads
  the very sequence that was saved.
\<close>

theorem save_load_roundtrip:
  "JSON_parse (JSON_stringify S) = Some S
   \<and> (\<exists>s'. loadTasks (initial_page (localStorage (saveTasks s))) = Inr s' \<and> tasks s' = tasks s)"
proof -
  have "localStorage (initial_page (localStorage (saveTasks s))) (str ''tasks'') =
      Some (JSON_stringify (tasks s))"
    by (simp add: initial_page_def saveTasks_def)
  from loadTasks_stored [OF this] have
    "\<exists>s'. loadTasks (initial_page (localStorage (saveTasks s))) = Inr s' \<and> tasks s' = tasks s"
    by (simp add: renderTasks_def)
  with JSON_parse_JSON_stringify [of S] show ?thesis by blast
qed



section \<open>Identifiers along a run of the page\<close>

lemma run_append: "run (xs @ ys) s = run ys (run xs s)"
  by (induction xs arbitrary: s) simp_all

lemma ids_toggleTask: "map task_id (tasks (toggleTask i s)) = map task_id (tasks s)"
proof (cases "find_first (\<lambda>t. task_id t = i) (tasks s)")
  case None
  then show ?thesis by (simp add: toggleTask_def)
next
  case (Some k)
  from find_first_Some [OF Some] have "k < length (tasks s)" by simp
  then show ?thesis
    by (simp add: tasks_toggleTask [OF Some] map_update list_update_same_conv)
qed

lemma step_Add_blank:
  assumes "trim input = []"
  shows "tasks (step (Add input) s) = tasks s" and "nextId (step (Add input) s) = nextId s"
  using assms by (simp_all add: addTask_def)

lemma step_Add_effective:
  assumes "trim input \<noteq> []"
  shows "tasks (step (Add input) s) =
           tasks s @ [\<lparr>task_id = nextId s, task_text = trim input, completed = False\<rparr>]"
    and "nextId (step (Add input) s) = add_one (nextId s)"
  using assms by (simp_all add: addTask_def Let_def renderTasks_def saveTasks_def)

lemma nextId_step: "nextId (step a s) = (if effective a then add_one (nextId s) else nextId s)"
proof (cases a)
  case (Add input)
  show ?thesis
  proof (cases "trim input = []")
    case True
    then show ?thesis unfolding Add step_Add_blank(2) [OF True] by simp
  next
    case False
    then show ?thesis unfolding Add step_Add_effective(2) [OF False] by simp
  qed
next
  case (Toggle i)
  then show ?thesis by (simp add: nextId_toggleTask)
next
  case (Delete i)
  then show ?thesis by (simp add: nextId_deleteTask)
qed

text \<open>One action keeps the ids distinct and below \<open>nextId\<close>, provided its addition of 1 is exact.\<close>

lemma ids_step:
  assumes "distinct (map task_id (tasks s))" and "\<forall>j\<in>set (map task_id (tasks s)). j < nextId s"
    and "effective a \<Longrightarrow> \<bar>nextId s + 1\<bar> \<le> 2 ^ 53"
  shows "distinct (map task_id (tasks (step a s)))"
    and "\<forall>j\<in>set (map task_id (tasks (step a s))). j < nextId (step a s)"
proof -
  have "distinct (map task_id (tasks (step a s)))
      \<and> (\<forall>j\<in>set (map task_id (tasks (step a s))). j < nextId (step a s))"
  proof (cases a)
    case (Add input)
    show ?thesis
    proof (cases "trim input = []")
      case True
      from assms(1,2) show ?thesis
        unfolding Add step_Add_blank [OF True] by blast
    next
      case False
      with assms(3) Add have "add_one (nextId s) = nextId s + 1"
        by (simp add: add_one_exact)
      moreover from assms(2) have "nextId s \<notin> set (map task_id (tasks s))" by auto
      ultimately show ?thesis
        using assms(1,2) unfolding Add step_Add_effective [OF False] by auto
    qed
  next
    case (Toggle i)
    from assms(1,2) show ?thesis
      unfolding Toggle step.simps ids_toggleTask nextId_toggleTask by blast
  next
    case (Delete i)
    have "map task_id (tasks (deleteTask i s)) = filter (\<lambda>j. j \<noteq> i) (map task_id (tasks s))"
      by (simp add: tasks_deleteTask filter_map comp_def)
    with assms(1,2) show ?thesis
      unfolding Delete step.simps nextId_deleteTask by auto
  qed
  then show "distinct (map task_id (tasks (step a s)))"
    and "\<forall>j\<in>set (map task_id (tasks (step a s))). j < nextId (step a s)"
    by simp_all
qed

text \<open>
  A run keeps them so, and counts \<open>nextId\<close> up by one for each task created, as long as
  \<open>nextId\<close> does not pass \<open>2\<^sup>5\<^sup>3\<close>.
\<close>

lemma ids_run:
  assumes "distinct (map task_id (tasks s))" and "\<forall>j\<in>set (map task_id (tasks s)). j < nextId s"
    and "- (2 ^ 53) \<le> nextId s"
    and "nextId s + int (length (filter effective ops)) \<le> 2 ^ 53"
  shows "distinct (map task_id (tasks (run ops s)))
         \<and> (\<forall>j\<in>set (map task_id (tasks (run ops s))). j < nextId (run ops s))
         \<and> nextId (run ops s) = nextId s + int (length (filter effective ops))"
  using assms
proof (induction ops arbitrary: s)
  case Nil
  then show ?case by simp
next
  case (Cons a ops)
  have exact: "\<bar>nextId s + 1\<bar> \<le> 2 ^ 53" if "effective a"
    using that Cons.prems(3,4) by (simp add: abs_le_iff)
  have next_a: "nextId (step a s) = nextId s + (if effective a then 1 else 0)"
    using exact by (simp add: nextId_step add_one_exact)
  have d: "distinct (map task_id (tasks (step a s)))"
    using Cons.prems(1,2) exact by (rule ids_step(1))
  have b: "\<forall>j\<in>set (map task_id (tasks (step a s))). j < nextId (step a s)"
    using Cons.prems(1,2) exact by (rule ids_step(2))
  have lo: "- (2 ^ 53) \<le> nextId (step a s)"
    using Cons.prems(3) next_a by simp
  have hi: "nextId (step a s) + int (length (filter effective ops)) \<le> 2 ^ 53"
    using Cons.prems(4) next_a by (cases "effective a") simp_all
  from Cons.IH [OF d b lo hi] next_a show ?case by (cases "effective a") auto
qed

lemma loadTasks_initial:
  assumes "storage (str ''tasks'') = None \<and> S = [] \<or> storage (str ''tasks'') = Some (JSON_stringify S)"
    and "\<forall>t\<in>set S. \<bar>task_id t\<bar> < 2 ^ 53"
  obtains s0 where "loadTasks (initial_page storage) = Inr s0" and "tasks s0 = S"
    and "nextId s0 = (if S = [] then 1 else Max (task_id ` set S) + 1)"
proof -
  have exact: "add_one (Max (task_id ` set S)) = Max (task_id ` set S) + 1" if "S \<noteq> []"
  proof -
    from that have "Max (task_id ` set S) \<in> task_id ` set S"
      by (intro Max_in) simp_all
    with assms(2) have "\<bar>Max (task_id ` set S)\<bar> < 2 ^ 53" by auto
    then show ?thesis by (intro add_one_exact) simp
  qed
  from assms(1) consider
    (absent) "localStorage (initial_page storage) (str ''tasks'') = None" "S = []"
    | (stored) "localStorage (initial_page storage) (str ''tasks'') = Some (JSON_stringify S)"
    by (auto simp: initial_page_def)
  then show thesis
  proof cases
    case absent
    from loadTasks_absent [OF absent(1)] absent(2) that [of "initial_page storage"] show thesis
      by (simp add: initial_page_def)
  next
    case stored
    from loadTasks_stored [OF stored] that exact show thesis
      by (cases "S = []") (simp_all add: renderTasks_def initial_page_def)
  qed
qed

text \<open>
  Claim C4, as stated, fails at \<open>2\<^sup>5\<^sup>3\<close>. The stored sequence with the single id
  9007199254740991 is valid, and loading it sets \<open>nextId\<close> to 9007199254740992. The first
  task added gets this id and \<^verbatim>\<open>nextId++\<close> leaves \<open>nextId\<close> as it is, so \<open>nextId\<close> is no longer
  above every id; the second task added gets the same id again.
\<close>

theorem ids_repeat_counterexample:
  "loadTasks (initial_page limit_storage) = Inr limit_page
   \<and> map task_id (tasks (run [Add (str ''b''), Add (str ''c'')] limit_page)) =
       [9007199254740991, 9007199254740992, 9007199254740992]
   \<and> nextId (run [Add (str ''b''), Add (str ''c'')] limit_page) = 9007199254740992
   \<and> \<not> distinct (map task_id (tasks (run [Add (str ''b''), Add (str ''c'')] limit_page)))"
proof -
  have b: "trim (str ''b'') \<noteq> []" and c: "trim (str ''c'') \<noteq> []"
    by (simp_all add: trim_def str_def trimmed_unit_def WhiteSpace_def LineTerminator_def)
  have n0: "nextId limit_page = 9007199254740992" and t0: "map task_id (tasks limit_page) = [9007199254740991]"
    by (simp_all add: limit_page_def limit_tasks_def renderTasks_def)
  have n1: "nextId (step (Add (str ''b'')) limit_page) = 9007199254740992"
    by (simp only: step_Add_effective(2) [OF b] n0 add_one_limit)
  have t1: "map task_id (tasks (step (Add (str ''b'')) limit_page)) =
      [9007199254740991, 9007199254740992]"
    by (simp add: step_Add_effective(1) [OF b] n0 t0 del: step.simps)
  have n2: "nextId (step (Add (str ''c'')) (step (Add (str ''b'')) limit_page)) = 9007199254740992"
    by (simp only: step_Add_effective(2) [OF c] n1 add_one_limit)
  have t2: "map task_id (tasks (step (Add (str ''c'')) (step (Add (str ''b'')) limit_page))) =
      [9007199254740991, 9007199254740992, 9007199254740992]"
    by (simp add: step_Add_effective(1) [OF c] n1 t1 del: step.simps)
  from loadTasks_limit n2 t2 show ?thesis by (simp del: step.simps)
qed

text \<open>
  Claim C4, amended. A page that starts without stored tasks, or on the stored
  serialization of a sequence with distinct ids below \<open>2\<^sup>5\<^sup>3\<close> in absolute value, loads that
  sequence and sets \<open>nextId\<close> to 1 when it is empty and to the greatest id plus one
  otherwise. After a run of add, toggle and delete actions from there, as long as this
  \<open>nextId\<close> plus the number of tasks created does not exceed \<open>2\<^sup>5\<^sup>3\<close>, the ids in the sequence
  are distinct and all below \<open>nextId\<close>; and the task created by the next effective add gets
  the id \<open>nextId\<close> of the loaded page plus the number of tasks created before it: the ids
  are handed out in increasing order, one after the other.
\<close>

theorem ids_unique_and_increasing:
  assumes "storage (str ''tasks'') = None \<and> S = [] \<or> storage (str ''tasks'') = Some (JSON_stringify S)"
    and "distinct (map task_id S)"
    and "\<forall>t\<in>set S. \<bar>task_id t\<bar> < 2 ^ 53"
  shows "\<exists>s0. loadTasks (initial_page storage) = Inr s0
           \<and> tasks s0 = S
           \<and> nextId s0 = (if S = [] then 1 else Max (task_id ` set S) + 1)
           \<and> (\<forall>ops. nextId s0 + int (length (filter effective ops)) \<le> 2 ^ 53 \<longrightarrow>
                  distinct (map task_id (tasks (run ops s0)))
                  \<and> (\<forall>t\<in>set (tasks (run ops s0)). task_id t < nextId (run ops s0))
                  \<and> nextId (run ops s0) = nextId s0 + int (length (filter effective ops)))
           \<and> (\<forall>ops input.
                  trim input \<noteq> [] \<and> nextId s0 + int (length (filter effective ops)) \<le> 2 ^ 53 \<longrightarrow>
                  tasks (run (ops @ [Add input]) s0) =
                    tasks (run ops s0) @
                      [\<lparr>task_id = nextId s0 + int (length (filter effective ops)),
                        task_text = trim input, completed = False\<rparr>])"
proof -
  from assms(1,3) obtain s0 where load: "loadTasks (initial_page storage) = Inr s0"
    and S: "tasks s0 = S"
    and next0: "nextId s0 = (if S = [] then 1 else Max (task_id ` set S) + 1)"
    by (rule loadTasks_initial)
  have max_in: "Max (task_id ` set S) \<in> task_id ` set S" if "S \<noteq> []"
    using that by (intro Max_in) simp_all
  have below: "\<forall>j\<in>set (map task_id (tasks s0)). j < nextId s0"
  proof (cases "S = []")
    case True
    with S show ?thesis by simp
  next
    case False
    have "j \<le> Max (task_id ` set S)" if "j \<in> task_id ` set S" for j
      using that by (intro Max_ge) simp_all
    with False S next0 show ?thesis by fastforce
  qed
  have lo: "- (2 ^ 53) \<le> nextId s0"
  proof (cases "S = []")
    case True
    with next0 show ?thesis by simp
  next
    case False
    from max_in [OF False] assms(3) have "\<bar>Max (task_id ` set S)\<bar> < 2 ^ 53" by auto
    with False next0 show ?thesis by simp
  qed
  have distinct0: "distinct (map task_id (tasks s0))"
    using assms(2) S by simp
  have inv: "distinct (map task_id (tasks (run ops s0)))
      \<and> (\<forall>t\<in>set (tasks (run ops s0)). task_id t < nextId (run ops s0))
      \<and> nextId (run ops s0) = nextId s0 + int (length (filter effective ops))"
    if "nextId s0 + int (length (filter effective ops)) \<le> 2 ^ 53" for ops
    using ids_run [OF distinct0 below lo that] by auto
  have adds: "tasks (run (ops @ [Add input]) s0) =
      tasks (run ops s0) @
        [\<lparr>task_id = nextId s0 + int (length (filter effective ops)),
          task_text = trim input, completed = False\<rparr>]"
    if "trim input \<noteq> []" and "nextId s0 + int (length (filter effective ops)) \<le> 2 ^ 53"
    for ops input
    using inv [OF that(2)]
    by (simp only: run_append run.simps step_Add_effective(1) [OF that(1)])
  from load S next0 inv adds show ?thesis by blast
qed

theorem ids_unique_and_increasing_witness:
  "\<exists>s0. loadTasks (initial_page [str ''tasks'' \<mapsto> JSON_stringify
            [\<lparr>task_id = 5, task_text = str ''a'', completed = False\<rparr>,
             \<lparr>task_id = 2, task_text = str ''b'', completed = True\<rparr>]]) = Inr s0
       \<and> nextId s0 = 6
       \<and> tasks (run [Add (str ''c'')] s0) =
           [\<lparr>task_id = 5, task_text = str ''a'', completed = False\<rparr>,
            \<lparr>task_id = 2, task_text = str ''b'', completed = True\<rparr>,
            \<lparr>task_id = 6, task_text = str ''c'', completed = False\<rparr>]
       \<and> nextId (run [Add (str ''c''), Delete 5, Add (str '' ''), Add (str ''d'')] s0) = 8
       \<and> distinct (map task_id (tasks (run [Add (str ''c''), Delete 5, Add (str '' ''), Add (str ''d'')] s0)))"
proof -
  let ?S = "[\<lparr>task_id = 5, task_text = str ''a'', completed = False\<rparr>,
             \<lparr>task_id = 2, task_text = str ''b'', completed = True\<rparr>]"
  let ?ops = "[Add (str ''c''), Delete 5, Add (str '' ''), Add (str ''d'')]"
  have tc: "trim (str ''c'') = str ''c''" and td: "trim (str ''d'') = str ''d''"
    and tb: "trim (str '' '') = []"
    by (simp_all add: trim_def str_def trimmed_unit_def WhiteSpace_def LineTerminator_def)
  have c: "str ''c'' \<noteq> []" and d: "str ''d'' \<noteq> []" by (simp_all add: str_def)
  have h1: "[str ''tasks'' \<mapsto> JSON_stringify ?S] (str ''tasks'') = None \<and> ?S = []
      \<or> [str ''tasks'' \<mapsto> JSON_stringify ?S] (str ''tasks'') = Some (JSON_stringify ?S)"
    by simp
  have h2: "distinct (map task_id ?S)" by simp
  have h3: "\<forall>t\<in>set ?S. \<bar>task_id t\<bar> < 2 ^ 53" by simp
  from ids_unique_and_increasing [of "[str ''tasks'' \<mapsto> JSON_stringify ?S]" ?S, OF h1 h2 h3] obtain s0
    where load: "loadTasks (initial_page [str ''tasks'' \<mapsto> JSON_stringify ?S]) = Inr s0"
      and S: "tasks s0 = ?S"
      and next0: "nextId s0 = 6"
      and inv: "\<And>ops. nextId s0 + int (length (filter effective ops)) \<le> 2 ^ 53 \<Longrightarrow>
           distinct (map task_id (tasks (run ops s0)))
           \<and> nextId (run ops s0) = nextId s0 + int (length (filter effective ops))"
      and adds: "\<And>ops input. trim input \<noteq> [] \<Longrightarrow>
           nextId s0 + int (length (filter effective ops)) \<le> 2 ^ 53 \<Longrightarrow>
           tasks (run (ops @ [Add input]) s0) =
             tasks (run ops s0) @
               [\<lparr>task_id = nextId s0 + int (length (filter effective ops)),
                 task_text = trim input, completed = False\<rparr>]"
    by auto
  from adds [of "str ''c''" "[]"] S next0 have one: "tasks (run [Add (str ''c'')] s0) =
      ?S @ [\<lparr>task_id = 6, task_text = str ''c'', completed = False\<rparr>]"
    by (simp add: tc c)
  have "nextId s0 + int (length (filter effective ?ops)) \<le> 2 ^ 53"
    using next0 by (simp add: tc td tb c d)
  from inv [OF this] next0 have "nextId (run ?ops s0) = 8"
    and "distinct (map task_id (tasks (run ?ops s0)))"
    by (simp_all add: tc td tb c d)
  with load next0 one show ?thesis by auto
qed

end
